theory Spec2Isabelle
  imports Complex_Main "HOL-Library.Log_Nat"
begin

section \<open>Python floats: IEEE binary64 over the rationals\<close>

text \<open>
  The calculator computes with Python numbers. The sliders of \<^verbatim>\<open>app.py\<close> deliver
  ints (0..30, 0..100, 10000..2000000), the \<^verbatim>\<open>DoubleVar\<close>s of \<^verbatim>\<open>run.py\<close> deliver
  floats, and the literals \<^verbatim>\<open>0.1\<close>, \<^verbatim>\<open>0.2\<close>, \<^verbatim>\<open>0.20\<close> are floats, so every
  comparison and every product of the core mixes in a double. A number is modelled
  as a binary64 value: a finite value is the rational it denotes, and an operation
  computes the exact rational result and rounds it to the nearest double, ties to
  even, as IEEE 754 and CPython do. A Python int of magnitude up to \<open>2 ^ 53\<close> denotes
  the same value as the double it converts to, and the int operations the code
  performs on slider values (\<^verbatim>\<open>100 - team - public\<close>) are exact in both readings.
  Not modelled: ints beyond \<open>2 ^ 53\<close> and the sign of zero.
\<close>

datatype pyfloat = Fin rat | PInf | NInf | NaN

datatype py_error = ZeroDivisionError

definition pow2 :: "int \<Rightarrow> rat" where
  "pow2 k = (if 0 \<le> k then 2 ^ nat k else 1 / 2 ^ nat (- k))"

text \<open>
  \<open>ilog2 x\<close> is \<open>\<lfloor>log\<^sub>2 x\<rfloor>\<close> for a positive rational \<open>x\<close>, from the bit lengths
  of its numerator and denominator.
\<close>

definition ilog2 :: "rat \<Rightarrow> int" where
  "ilog2 x =
     (let (p, q) = quotient_of x;
          k = bitlen p - bitlen q
      in if pow2 k \<le> x then k else k - 1)"

definition round_half_even :: "rat \<Rightarrow> int" where
  "round_half_even x =
     (let f = \<lfloor>x\<rfloor>; d = x - of_int f
      in if d < 1 / 2 then f
         else if 1 / 2 < d then f + 1
         else if even f then f else f + 1)"

text \<open>
  The spacing of the doubles around \<open>x\<close> is \<open>2 ^ (\<lfloor>log\<^sub>2 |x|\<rfloor> - 52)\<close>, and
  \<open>2 ^ (-1074)\<close> among the subnormals. A result that rounds to \<open>2 ^ 1024\<close> or beyond
  is an infinity.
\<close>

definition quantum :: "rat \<Rightarrow> int" where
  "quantum x = max (ilog2 \<bar>x\<bar> - 52) (- 1074)"

definition round_to_spacing :: "rat \<Rightarrow> rat" where
  "round_to_spacing x =
     of_int (round_half_even (x / pow2 (quantum x))) * pow2 (quantum x)"

definition overflow_to_inf :: "rat \<Rightarrow> pyfloat" where
  "overflow_to_inf r =
     (if r = 0 then Fin 0
      else if 1024 \<le> ilog2 \<bar>r\<bar> then (if 0 < r then PInf else NInf)
      else Fin r)"

definition round_double :: "rat \<Rightarrow> pyfloat" where
  "round_double x = overflow_to_inf (round_to_spacing x)"

fun fneg :: "pyfloat \<Rightarrow> pyfloat" where
  "fneg (Fin a) = Fin (- a)"
| "fneg PInf = NInf"
| "fneg NInf = PInf"
| "fneg NaN = NaN"

fun fadd :: "pyfloat \<Rightarrow> pyfloat \<Rightarrow> pyfloat" where
  "fadd (Fin a) (Fin b) = round_double (a + b)"
| "fadd NaN _ = NaN"
| "fadd _ NaN = NaN"
| "fadd PInf NInf = NaN"
| "fadd NInf PInf = NaN"
| "fadd PInf _ = PInf"
| "fadd NInf _ = NInf"
| "fadd _ PInf = PInf"
| "fadd _ NInf = NInf"

definition fsub :: "pyfloat \<Rightarrow> pyfloat \<Rightarrow> pyfloat" where
  "fsub a b = fadd a (fneg b)"

text \<open>The sign of an infinite product; a zero times an infinity is not a number.\<close>

definition inf_times :: "bool \<Rightarrow> rat \<Rightarrow> pyfloat" where
  "inf_times pos b =
     (if b = 0 then NaN else if (0 < b) = pos then PInf else NInf)"

fun fmul :: "pyfloat \<Rightarrow> pyfloat \<Rightarrow> pyfloat" where
  "fmul (Fin a) (Fin b) = round_double (a * b)"
| "fmul NaN _ = NaN"
| "fmul _ NaN = NaN"
| "fmul PInf (Fin b) = inf_times True b"
| "fmul NInf (Fin b) = inf_times False b"
| "fmul (Fin a) PInf = inf_times True a"
| "fmul (Fin a) NInf = inf_times False a"
| "fmul PInf PInf = PInf"
| "fmul NInf NInf = PInf"
| "fmul PInf NInf = NInf"
| "fmul NInf PInf = NInf"

text \<open>
  The IEEE quotient by a divisor other than zero. Python's \<^verbatim>\<open>/\<close> raises
  \<^verbatim>\<open>ZeroDivisionError\<close> on a zero divisor, whatever the dividend, and is the IEEE
  quotient otherwise.
\<close>

fun fquot :: "pyfloat \<Rightarrow> pyfloat \<Rightarrow> pyfloat" where
  "fquot (Fin a) (Fin b) = round_double (a / b)"
| "fquot NaN _ = NaN"
| "fquot _ NaN = NaN"
| "fquot PInf (Fin b) = inf_times True b"
| "fquot NInf (Fin b) = inf_times False b"
| "fquot (Fin a) _ = Fin 0"
| "fquot _ _ = NaN"

definition fdiv :: "pyfloat \<Rightarrow> pyfloat \<Rightarrow> py_error + pyfloat" where
  "fdiv a b = (if b = Fin 0 then Inl ZeroDivisionError else Inr (fquot a b))"

text \<open>Comparisons: anything compared with a NaN is false.\<close>

fun flt :: "pyfloat \<Rightarrow> pyfloat \<Rightarrow> bool" where
  "flt (Fin a) (Fin b) = (a < b)"
| "flt NaN _ = False"
| "flt _ NaN = False"
| "flt PInf _ = False"
| "flt _ NInf = False"
| "flt _ PInf = True"
| "flt NInf _ = True"

fun feq :: "pyfloat \<Rightarrow> pyfloat \<Rightarrow> bool" where
  "feq (Fin a) (Fin b) = (a = b)"
| "feq PInf PInf = True"
| "feq NInf NInf = True"
| "feq _ _ = False"

definition fgt :: "pyfloat \<Rightarrow> pyfloat \<Rightarrow> bool" where
  "fgt a b = flt b a"

definition fge :: "pyfloat \<Rightarrow> pyfloat \<Rightarrow> bool" where
  "fge a b = (flt b a \<or> feq a b)"

section \<open>The allocation engine of \<^verbatim>\<open>app.py\<close>\<close>

text \<open>The float literals \<^verbatim>\<open>0.1\<close> and \<^verbatim>\<open>0.2\<close> are the doubles nearest to 1/10 and 1/5.\<close>

definition lit_0_1 :: pyfloat where
  "lit_0_1 = round_double (1 / 10)"

definition lit_0_2 :: pyfloat where
  "lit_0_2 = round_double (1 / 5)"

definition TOTAL_SUPPLY :: pyfloat where
  "TOTAL_SUPPLY = Fin 10000000000"

definition LP_FUND_PERCENT :: pyfloat where
  "LP_FUND_PERCENT = lit_0_2"

definition validate_allocation :: "pyfloat \<Rightarrow> pyfloat \<Rightarrow> bool \<times> pyfloat \<times> string" where
  "validate_allocation team_percent public_percent =
     (let lp_percent = fsub (fsub (Fin 100) team_percent) public_percent
      in if flt lp_percent lit_0_1 then (False, lp_percent, ''LP cannot be 0%'')
         else if fgt public_percent lit_0_1
                 \<and> fgt lp_percent (fmul lit_0_2 public_percent)
              then (False, lp_percent, ''LP FDV would drop below ICO FDV'')
              else (True, lp_percent, ''''))"

text \<open>
  The specification names the two rejections \<open>LP_ZERO_OR_NEGATIVE\<close> and
  \<open>LP_FDV_BELOW_ICO_FDV\<close> and fixes the message of each; the code returns the
  message. \<open>reason_of\<close> reads the reason off the returned message.
\<close>

datatype reason = LP_ZERO_OR_NEGATIVE | LP_FDV_BELOW_ICO_FDV

definition reason_of :: "string \<Rightarrow> reason option" where
  "reason_of msg =
     (if msg = ''LP cannot be 0%'' then Some LP_ZERO_OR_NEGATIVE
      else if msg = ''LP FDV would drop below ICO FDV'' then Some LP_FDV_BELOW_ICO_FDV
      else None)"

text \<open>
  A finite value is a double when rounding leaves it alone. The inputs of the
  engine are doubles; the type \<open>pyfloat\<close> is wider so that exact results can be
  written down before they are rounded.
\<close>

fun is_double :: "pyfloat \<Rightarrow> bool" where
  "is_double (Fin a) = (round_double a = Fin a)"
| "is_double _ = True"

subsection \<open>Derivation\<close>

text \<open>
  The statements of \<^verbatim>\<open>app.py\<close> after the validity gate (lines 136 to 163), which
  \<^verbatim>\<open>update_calculations\<close> of \<^verbatim>\<open>run.py\<close> repeats. Each \<^verbatim>\<open>/\<close> can raise, so the
  derivation returns an error or the record of the derived quantities.
\<close>

definition bind_err :: "py_error + 'a \<Rightarrow> ('a \<Rightarrow> py_error + 'b) \<Rightarrow> py_error + 'b" where
  "bind_err r f = (case r of Inl e \<Rightarrow> Inl e | Inr v \<Rightarrow> f v)"

record allocation_result =
  lpPercent :: pyfloat
  teamTokens :: pyfloat
  publicTokens :: pyfloat
  lpTokens :: pyfloat
  lpFunds :: pyfloat
  teamFunds :: pyfloat
  icoPrice :: pyfloat
  lpPrice :: pyfloat
  fdvIco :: pyfloat
  fdvLp :: pyfloat
  fdvMultiple :: pyfloat

definition derive ::
  "pyfloat \<Rightarrow> pyfloat \<Rightarrow> pyfloat \<Rightarrow> pyfloat \<Rightarrow> py_error + allocation_result" where
  "derive team_percent public_percent lp_percent funds_to_raise =
     bind_err (fdiv team_percent (Fin 100)) (\<lambda>team_share.
     bind_err (fdiv public_percent (Fin 100)) (\<lambda>public_share.
     bind_err (fdiv lp_percent (Fin 100)) (\<lambda>lp_share.
     let team_tokens = fmul TOTAL_SUPPLY team_share;
         public_tokens = fmul TOTAL_SUPPLY public_share;
         lp_tokens = fmul TOTAL_SUPPLY lp_share;
         lp_funds = fmul funds_to_raise LP_FUND_PERCENT;
         team_funds = fmul funds_to_raise (fsub (Fin 1) LP_FUND_PERCENT)
     in
     bind_err (if fgt public_tokens (Fin 0) then fdiv funds_to_raise public_tokens
               else Inr (Fin 0)) (\<lambda>ico_price.
     bind_err (if fgt lp_tokens (Fin 0) then fdiv lp_funds lp_tokens
               else Inr (Fin 0)) (\<lambda>lp_price.
     let fdv_ico = fmul TOTAL_SUPPLY ico_price;
         fdv_lp = fmul TOTAL_SUPPLY lp_price
     in
     bind_err (if fgt fdv_ico (Fin 0) then fdiv fdv_lp fdv_ico
               else Inr (Fin 0)) (\<lambda>fdv_multiple.
     Inr \<lparr> lpPercent = lp_percent, teamTokens = team_tokens,
           publicTokens = public_tokens, lpTokens = lp_tokens,
           lpFunds = lp_funds, teamFunds = team_funds,
           icoPrice = ico_price, lpPrice = lp_price,
           fdvIco = fdv_ico, fdvLp = fdv_lp,
           fdvMultiple = fdv_multiple \<rparr>))))))"

text \<open>
  The page of \<^verbatim>\<open>app.py\<close>: an invalid allocation shows the message and stops
  (\<^verbatim>\<open>st.stop()\<close>); a valid one goes on to the derivation.
\<close>

datatype page = Invalid_Allocation string | Results allocation_result

definition app_page :: "pyfloat \<Rightarrow> pyfloat \<Rightarrow> pyfloat \<Rightarrow> py_error + page" where
  "app_page team_percent funds_to_raise public_percent =
     (case validate_allocation team_percent public_percent of
        (is_valid, lp_percent, error_msg) \<Rightarrow>
          if \<not> is_valid then Inr (Invalid_Allocation error_msg)
          else bind_err (derive team_percent public_percent lp_percent funds_to_raise)
                 (\<lambda>r. Inr (Results r)))"

subsection \<open>Number formatting\<close>

text \<open>
  \<^verbatim>\<open>f"{x:,.2f}"\<close> rounds the exact value of \<open>x\<close> to two decimals, ties to even,
  and groups the integer digits in threes; the sign is that of \<open>x\<close>.
\<close>

definition digit_char :: "int \<Rightarrow> char" where
  "digit_char d = char_of (48 + d)"

function dec_digits :: "int \<Rightarrow> string" where
  "dec_digits n =
     (if n < 10 then [digit_char n]
      else dec_digits (n div 10) @ [digit_char (n mod 10)])"
  by pat_completeness auto
termination
  by (relation "measure nat") auto

fun group3 :: "string \<Rightarrow> string" where
  "group3 (a # b # c # d # rest) = a # b # c # CHR '','' # group3 (d # rest)"
| "group3 ds = ds"

definition with_commas :: "string \<Rightarrow> string" where
  "with_commas ds = rev (group3 (rev ds))"

definition fixed2 :: "bool \<Rightarrow> rat \<Rightarrow> string" where
  "fixed2 grouped x =
     (let q = round_half_even (\<bar>x\<bar> * 100);
          whole = dec_digits (q div 100)
      in (if x < 0 then ''-'' else '''')
         @ (if grouped then with_commas whole else whole)
         @ ''.'' @ [digit_char (q mod 100 div 10), digit_char (q mod 10)])"

fun fmt_comma_2f :: "pyfloat \<Rightarrow> string" where
  "fmt_comma_2f (Fin x) = fixed2 True x"
| "fmt_comma_2f PInf = ''inf''"
| "fmt_comma_2f NInf = ''-inf''"
| "fmt_comma_2f NaN = ''nan''"

definition format_number :: "pyfloat \<Rightarrow> py_error + string" where
  "format_number num =
     (if fge num (Fin 1000000000)
      then bind_err (fdiv num (Fin 1000000000)) (\<lambda>q. Inr (fmt_comma_2f q @ ''B''))
      else if fge num (Fin 1000000)
      then bind_err (fdiv num (Fin 1000000)) (\<lambda>q. Inr (fmt_comma_2f q @ ''M''))
      else if fge num (Fin 1000)
      then bind_err (fdiv num (Fin 1000)) (\<lambda>q. Inr (fmt_comma_2f q @ ''K''))
      else Inr (fmt_comma_2f num))"

text \<open>
  The helper as the specification words it: the scaled value "with 2 decimals" and
  the suffix, thousands separators in the unsuffixed case only.
\<close>

fun fmt_2f :: "pyfloat \<Rightarrow> string" where
  "fmt_2f (Fin x) = fixed2 False x"
| "fmt_2f PInf = ''inf''"
| "fmt_2f NInf = ''-inf''"
| "fmt_2f NaN = ''nan''"

definition format_number_spec :: "pyfloat \<Rightarrow> py_error + string" where
  "format_number_spec n =
     (if fge n (Fin 1000000000)
      then bind_err (fdiv n (Fin 1000000000)) (\<lambda>q. Inr (fmt_2f q @ ''B''))
      else if fge n (Fin 1000000)
      then bind_err (fdiv n (Fin 1000000)) (\<lambda>q. Inr (fmt_2f q @ ''M''))
      else if fge n (Fin 1000)
      then bind_err (fdiv n (Fin 1000)) (\<lambda>q. Inr (fmt_2f q @ ''K''))
      else Inr (fmt_comma_2f n))"

section \<open>The slider state machine of \<^verbatim>\<open>run.py\<close>\<close>

text \<open>
  The three \<^verbatim>\<open>DoubleVar\<close>s and the pair \<^verbatim>\<open>prev_team\<close>, \<^verbatim>\<open>prev_public\<close> that
  \<^verbatim>\<open>__init__\<close> stores from the initial values of the variables.
\<close>

record gui_state =
  team_var :: pyfloat
  funds_var :: pyfloat
  public_var :: pyfloat
  prev_team :: pyfloat
  prev_public :: pyfloat

definition init_gui :: gui_state where
  "init_gui = \<lparr> team_var = Fin 10, funds_var = Fin 100000, public_var = Fin 70,
                prev_team = Fin 10, prev_public = Fin 70 \<rparr>"

text \<open>The flag \<^verbatim>\<open>is_valid\<close> of \<^verbatim>\<open>validate_and_update\<close>, with its three checks in order.\<close>

definition gui_is_valid :: "pyfloat \<Rightarrow> pyfloat \<Rightarrow> bool" where
  "gui_is_valid team_val public_val =
     (let lp_val = fsub (fsub (Fin 100) team_val) public_val
      in if fge (fadd team_val public_val) (Fin 100) then False
         else if flt lp_val lit_0_1 then False
         else if fgt public_val lit_0_1 \<and> fgt lp_val (fmul lit_0_2 public_val) then False
         else True)"

definition validate_and_update :: "string \<Rightarrow> gui_state \<Rightarrow> gui_state" where
  "validate_and_update slider_type st =
     (let team_val = team_var st; public_val = public_var st
      in if \<not> gui_is_valid team_val public_val
         then (if slider_type = ''team'' then st\<lparr>team_var := prev_team st\<rparr>
               else if slider_type = ''public'' then st\<lparr>public_var := prev_public st\<rparr>
               else st)
         else st\<lparr>prev_team := team_val, prev_public := public_val\<rparr>)"

text \<open>
  What \<^verbatim>\<open>update_calculations\<close> computes from the variables, before it writes the
  labels. Its \<^verbatim>\<open>try\<close> block catches and prints any exception.
\<close>

definition update_calculations :: "gui_state \<Rightarrow> py_error + allocation_result" where
  "update_calculations st =
     (let team_percent = team_var st; public_percent = public_var st;
          funds_to_raise = funds_var st;
          lp_percent = fsub (fsub (Fin 100) team_percent) public_percent
      in derive team_percent public_percent lp_percent funds_to_raise)"

text \<open>
  Moving a slider writes its variable, and the write trace of the team and the
  public variable calls \<^verbatim>\<open>validate_and_update\<close>; the trace of the funds variable
  only recalculates.
\<close>

datatype edit = Set_team pyfloat | Set_public pyfloat | Set_funds pyfloat

fun step :: "gui_state \<Rightarrow> edit \<Rightarrow> gui_state" where
  "step st (Set_team v) = validate_and_update ''team'' (st\<lparr>team_var := v\<rparr>)"
| "step st (Set_public v) = validate_and_update ''public'' (st\<lparr>public_var := v\<rparr>)"
| "step st (Set_funds v) = st\<lparr>funds_var := v\<rparr>"

definition run_edits :: "edit list \<Rightarrow> gui_state" where
  "run_edits es = foldl step init_gui es"

section \<open>Facts about rounding\<close>

subsection \<open>Powers of two and the binary logarithm\<close>

lemma pow2_powi: "pow2 k = 2 powi k"
  by (simp add: pow2_def power_int_def power_one_over)

lemma pow2_pos [simp]: "0 < pow2 k"
  by (simp add: pow2_powi)

lemma pow2_nonneg [simp]: "0 \<le> pow2 k"
  using pow2_pos [of k] by linarith

lemma pow2_neq0 [simp]: "pow2 k \<noteq> 0"
  using pow2_pos [of k] by (metis less_irrefl)

lemma pow2_add: "pow2 (a + b) = pow2 a * pow2 b"
  by (simp add: pow2_powi power_int_add)

lemma pow2_diff: "pow2 (a - b) = pow2 a / pow2 b"
  by (simp add: pow2_powi power_int_diff)

lemma pow2_nat: "pow2 (int n) = 2 ^ n"
  by (simp add: pow2_def)

lemma pow2_0 [simp]: "pow2 0 = 1"
  by (simp add: pow2_def)

lemma pow2_le_iff [simp]: "pow2 a \<le> pow2 b \<longleftrightarrow> a \<le> b"
proof
  assume "a \<le> b"
  then show "pow2 a \<le> pow2 b"
    by (simp add: pow2_powi power_int_increasing)
next
  assume h: "pow2 a \<le> pow2 b"
  show "a \<le> b"
  proof (rule ccontr)
    assume "\<not> a \<le> b"
    then have "b < a" by simp
    then have "pow2 b < pow2 a"
      by (simp add: pow2_powi power_int_strict_increasing)
    with h show False by simp
  qed
qed

lemma pow2_less_iff [simp]: "pow2 a < pow2 b \<longleftrightarrow> a < b"
  by (metis pow2_le_iff not_le)

lemma ilog2_bounds:
  assumes "0 < x"
  shows "pow2 (ilog2 x) \<le> x \<and> x < pow2 (ilog2 x + 1)"
proof -
  obtain p q where pq: "quotient_of x = (p, q)"
    by (cases "quotient_of x")
  have q: "0 < q"
    using pq by (rule quotient_of_denom_pos)
  have x: "x = of_int p / of_int q"
    using pq by (rule quotient_of_div)
  have p: "0 < p"
    using assms q x by (simp add: zero_less_divide_iff)
  define bp where "bp = bitlen p"
  define bq where "bq = bitlen q"
  have bp: "2 ^ nat (bp - 1) \<le> p" "p < 2 ^ nat bp"
    using bitlen_bounds [OF p] by (simp_all add: bp_def)
  have bq: "2 ^ nat (bq - 1) \<le> q" "q < 2 ^ nat bq"
    using bitlen_bounds [OF q] by (simp_all add: bq_def)
  have bp1: "1 \<le> bp"
    using p by (simp add: bp_def bitlen_alt_def)
  have bq1: "1 \<le> bq"
    using q by (simp add: bq_def bitlen_alt_def)
  have P1: "pow2 (bp - 1) \<le> of_int p"
  proof -
    have "(of_int (2 ^ nat (bp - 1)) :: rat) \<le> of_int p"
      using bp(1) by (simp only: of_int_le_iff)
    then show ?thesis using bp1 by (simp add: pow2_def)
  qed
  have P2: "of_int p < pow2 bp"
  proof -
    have "(of_int p :: rat) < of_int (2 ^ nat bp)"
      using bp(2) by (simp only: of_int_less_iff)
    then show ?thesis using bp1 by (simp add: pow2_def)
  qed
  have Q1: "pow2 (bq - 1) \<le> of_int q"
  proof -
    have "(of_int (2 ^ nat (bq - 1)) :: rat) \<le> of_int q"
      using bq(1) by (simp only: of_int_le_iff)
    then show ?thesis using bq1 by (simp add: pow2_def)
  qed
  have Q2: "of_int q < pow2 bq"
  proof -
    have "(of_int q :: rat) < of_int (2 ^ nat bq)"
      using bq(2) by (simp only: of_int_less_iff)
    then show ?thesis using bq1 by (simp add: pow2_def)
  qed
  have qpos: "(0::rat) < of_int q" using q by simp
  have ppos: "(0::rat) < of_int p" using p by simp
  have up: "x < pow2 (bp - bq + 1)"
  proof -
    have "x < pow2 bp / of_int q"
      unfolding x using P2 qpos by (simp add: divide_strict_right_mono)
    also have "\<dots> \<le> pow2 bp / pow2 (bq - 1)"
      by (rule frac_le) (use Q1 in simp_all)
    also have "\<dots> = pow2 (bp - bq + 1)"
      by (simp add: pow2_diff [symmetric] algebra_simps)
    finally show ?thesis .
  qed
  have lo: "pow2 (bp - bq - 1) < x"
  proof -
    have "pow2 (bp - bq - 1) = pow2 (bp - 1) / pow2 bq"
      by (simp add: pow2_diff [symmetric] algebra_simps)
    also have "\<dots> < pow2 (bp - 1) / of_int q"
      by (rule frac_less2) (use Q2 qpos in simp_all)
    also have "\<dots> \<le> x"
      unfolding x using P1 qpos by (simp add: divide_right_mono)
    finally show ?thesis .
  qed
  show ?thesis
  proof (cases "pow2 (bp - bq) \<le> x")
    case True
    then have "ilog2 x = bp - bq"
      by (simp add: ilog2_def pq bp_def bq_def)
    with True up show ?thesis by simp
  next
    case False
    then have "ilog2 x = bp - bq - 1"
      by (simp add: ilog2_def pq bp_def bq_def)
    with False lo show ?thesis by simp
  qed
qed

lemma ilog2_unique:
  assumes "pow2 a \<le> x" "x < pow2 (a + 1)"
  shows "ilog2 x = a"
proof -
  have x: "0 < x"
    using assms(1) pow2_pos [of a] by linarith
  note b = ilog2_bounds [OF x]
  have "pow2 a < pow2 (ilog2 x + 1)"
    using assms(1) b by linarith
  moreover have "pow2 (ilog2 x) < pow2 (a + 1)"
    using assms(2) b by linarith
  ultimately show ?thesis by simp
qed

lemma ilog2_mono:
  assumes "0 < x" "x \<le> y"
  shows "ilog2 x \<le> ilog2 y"
proof -
  have y: "0 < y" using assms by linarith
  have "pow2 (ilog2 x) < pow2 (ilog2 y + 1)"
    using ilog2_bounds [OF assms(1)] ilog2_bounds [OF y] assms(2) by linarith
  then show ?thesis by simp
qed

subsection \<open>Rounding to an integer, ties to even\<close>

lemma rhe_int [simp]: "round_half_even (of_int n) = n"
  by (simp add: round_half_even_def)

lemma rhe_ge_floor: "\<lfloor>x\<rfloor> \<le> round_half_even x"
  by (simp add: round_half_even_def Let_def)

lemma rhe_le_floor1: "round_half_even x \<le> \<lfloor>x\<rfloor> + 1"
  by (simp add: round_half_even_def Let_def)

lemma rhe_mono:
  assumes "x \<le> y"
  shows "round_half_even x \<le> round_half_even y"
proof -
  have fl: "\<lfloor>x\<rfloor> \<le> \<lfloor>y\<rfloor>"
    using assms by (rule floor_mono)
  show ?thesis
  proof (cases "\<lfloor>x\<rfloor> = \<lfloor>y\<rfloor>")
    case True
    then show ?thesis
      using assms by (auto simp: round_half_even_def Let_def)
  next
    case False
    with fl have "\<lfloor>x\<rfloor> + 1 \<le> \<lfloor>y\<rfloor>" by linarith
    then show ?thesis
      using rhe_le_floor1 [of x] rhe_ge_floor [of y] by linarith
  qed
qed

lemma rhe_err: "\<bar>of_int (round_half_even x) - x\<bar> \<le> 1 / 2"
proof -
  have "of_int \<lfloor>x\<rfloor> \<le> x" "x < of_int \<lfloor>x\<rfloor> + 1"
    by linarith+
  then show ?thesis
    by (auto simp: round_half_even_def Let_def abs_le_iff)
qed

lemma rhe_neg: "round_half_even (- x) = - round_half_even x"
proof (cases "of_int \<lfloor>x\<rfloor> = x")
  case True
  define n where "n = \<lfloor>x\<rfloor>"
  have n: "x = of_int n"
    unfolding n_def by (rule True [symmetric])
  have "round_half_even (of_int (- n)) = - n"
    by (rule rhe_int)
  then show ?thesis
    by (simp add: n)
next
  case False
  have lt: "of_int \<lfloor>x\<rfloor> < x"
    using False of_int_floor_le [of x] by linarith
  have f: "\<lfloor>- x\<rfloor> = - \<lfloor>x\<rfloor> - 1"
  proof (rule floor_unique)
    show "of_int (- \<lfloor>x\<rfloor> - 1) \<le> - x"
      using floor_correct [of x] by (simp; linarith)
    show "- x < of_int (- \<lfloor>x\<rfloor> - 1) + 1"
      using lt by simp
  qed
  show ?thesis
    unfolding round_half_even_def Let_def f
    by (auto simp: algebra_simps)
qed

subsection \<open>Rounding to the spacing\<close>

lemma quantum_neg [simp]: "quantum (- x) = quantum x"
  by (simp add: quantum_def)

lemma rts_neg: "round_to_spacing (- x) = - round_to_spacing x"
  by (simp add: round_to_spacing_def rhe_neg)

lemma rts_0 [simp]: "round_to_spacing 0 = 0"
  by (simp add: round_to_spacing_def round_half_even_def)

lemma rts_le_multiple:
  assumes "x \<le> of_int n * pow2 (quantum x)"
  shows "round_to_spacing x \<le> of_int n * pow2 (quantum x)"
proof -
  have "x / pow2 (quantum x) \<le> of_int n"
    using assms by (simp add: pos_divide_le_eq)
  then have "round_half_even (x / pow2 (quantum x)) \<le> round_half_even (of_int n)"
    by (rule rhe_mono)
  then have "round_half_even (x / pow2 (quantum x)) \<le> n"
    by simp
  then have "(of_int (round_half_even (x / pow2 (quantum x))) :: rat) \<le> of_int n"
    by (simp only: of_int_le_iff)
  then show ?thesis
    unfolding round_to_spacing_def by (simp add: mult_right_mono)
qed

lemma rts_ge_multiple:
  assumes "of_int n * pow2 (quantum x) \<le> x"
  shows "of_int n * pow2 (quantum x) \<le> round_to_spacing x"
proof -
  have "of_int n \<le> x / pow2 (quantum x)"
    using assms by (simp add: pos_le_divide_eq)
  then have "round_half_even (of_int n) \<le> round_half_even (x / pow2 (quantum x))"
    by (rule rhe_mono)
  then have "n \<le> round_half_even (x / pow2 (quantum x))"
    by simp
  then have "(of_int n :: rat) \<le> of_int (round_half_even (x / pow2 (quantum x)))"
    by (simp only: of_int_le_iff)
  then show ?thesis
    unfolding round_to_spacing_def by (simp add: mult_right_mono)
qed

lemma rts_nonneg:
  assumes "0 \<le> x"
  shows "0 \<le> round_to_spacing x"
  using rts_ge_multiple [of 0 x] assms by simp

lemma rts_nonpos:
  assumes "x \<le> 0"
  shows "round_to_spacing x \<le> 0"
  using rts_le_multiple [of x 0] assms by simp

lemma quantum_mono:
  assumes "0 < x" "x \<le> y"
  shows "quantum x \<le> quantum y"
proof -
  have "ilog2 x \<le> ilog2 y"
    using assms by (rule ilog2_mono)
  moreover have "\<bar>x\<bar> = x" "\<bar>y\<bar> = y"
    using assms by simp_all
  ultimately show ?thesis
    by (simp add: quantum_def)
qed

lemma pow2_add_nat: "pow2 (k + int n) = of_int (2 ^ n) * pow2 k"
  by (simp add: pow2_add pow2_nat)

lemma rts_mono_pos:
  assumes "0 < x" "x \<le> y"
  shows "round_to_spacing x \<le> round_to_spacing y"
proof -
  have y: "0 < y" using assms by linarith
  have ax: "\<bar>x\<bar> = x" and ay: "\<bar>y\<bar> = y"
    using assms by simp_all
  have q: "quantum x \<le> quantum y"
    using assms by (rule quantum_mono)
  show ?thesis
  proof (cases "quantum x = quantum y")
    case True
    have "x / pow2 (quantum x) \<le> y / pow2 (quantum x)"
      using assms(2) by (simp add: divide_right_mono)
    then have "round_half_even (x / pow2 (quantum x)) \<le> round_half_even (y / pow2 (quantum x))"
      by (rule rhe_mono)
    then have "(of_int (round_half_even (x / pow2 (quantum x))) :: rat)
                 \<le> of_int (round_half_even (y / pow2 (quantum x)))"
      by (simp only: of_int_le_iff)
    then show ?thesis
      unfolding round_to_spacing_def True [symmetric] by (simp add: mult_right_mono)
  next
    case False
    with q have lt: "quantum x < quantum y" by simp
    then have qy: "quantum y = ilog2 y - 52"
      by (auto simp: quantum_def ay ax max_def split: if_splits)
    have qx: "ilog2 x - 52 \<le> quantum x"
      by (simp add: quantum_def ax)
    have "x < pow2 (ilog2 x + 1)"
      using ilog2_bounds [OF assms(1)] by simp
    also have "\<dots> \<le> pow2 (quantum x + int 53)"
      using qx by simp
    finally have "x \<le> of_int (2 ^ 53) * pow2 (quantum x)"
      by (simp only: pow2_add_nat)
    then have ux: "round_to_spacing x \<le> of_int (2 ^ 53) * pow2 (quantum x)"
      by (rule rts_le_multiple)
    have "of_int (2 ^ 52) * pow2 (quantum y) = pow2 (quantum y + int 52)"
      by (simp only: pow2_add_nat)
    also have "\<dots> = pow2 (ilog2 y)"
      by (simp add: qy)
    also have "\<dots> \<le> y"
      using ilog2_bounds [OF y] by simp
    finally have ly: "of_int (2 ^ 52) * pow2 (quantum y) \<le> round_to_spacing y"
      by (rule rts_ge_multiple)
    have "of_int (2 ^ 53) * pow2 (quantum x) = pow2 (quantum x + int 53)"
      by (simp only: pow2_add_nat)
    also have "\<dots> \<le> pow2 (quantum y + int 52)"
      using lt by simp
    also have "\<dots> = of_int (2 ^ 52) * pow2 (quantum y)"
      by (simp only: pow2_add_nat)
    finally show ?thesis
      using ux ly by linarith
  qed
qed

lemma rts_mono:
  assumes "x \<le> y"
  shows "round_to_spacing x \<le> round_to_spacing y"
proof -
  consider "0 < x" | "x \<le> 0" "0 \<le> y" | "y < 0"
    using assms by linarith
  then show ?thesis
  proof cases
    case 1
    then show ?thesis using assms by (rule rts_mono_pos)
  next
    case 2
    then show ?thesis
      using rts_nonpos [of x] rts_nonneg [of y] by linarith
  next
    case 3
    then have "0 < - y" "- y \<le> - x"
      using assms by simp_all
    then have "round_to_spacing (- y) \<le> round_to_spacing (- x)"
      by (rule rts_mono_pos)
    then show ?thesis
      by (simp add: rts_neg)
  qed
qed

lemma rts_err: "\<bar>round_to_spacing x - x\<bar> \<le> pow2 (quantum x) / 2"
proof -
  define q where "q = pow2 (quantum x)"
  have q: "0 < q" by (simp add: q_def)
  have qn: "q \<noteq> 0" using q by simp
  have "round_to_spacing x = of_int (round_half_even (x / q)) * q"
    by (simp add: round_to_spacing_def q_def)
  then have "round_to_spacing x - x = (of_int (round_half_even (x / q)) - x / q) * q"
    using qn by (simp add: field_simps)
  then have "\<bar>round_to_spacing x - x\<bar> = \<bar>of_int (round_half_even (x / q)) - x / q\<bar> * q"
    using q by (simp add: abs_mult)
  also have "\<dots> \<le> (1 / 2) * q"
    using rhe_err [of "x / q"] q by (simp add: mult_right_mono)
  finally show ?thesis
    by (simp add: q_def)
qed

lemma rts_exact:
  assumes "x = of_int m * pow2 e" "quantum x \<le> e"
  shows "round_to_spacing x = x"
proof -
  define q where "q = quantum x"
  define n where "n = nat (e - q)"
  have "e = q + int n"
    using assms(2) by (simp add: n_def q_def)
  then have e: "pow2 e = of_int (2 ^ n) * pow2 q"
    by (simp only: pow2_add_nat)
  have qn: "pow2 q \<noteq> 0"
    by simp
  have x: "x = of_int (m * 2 ^ n) * pow2 q"
    unfolding assms(1) e by simp
  have "x / pow2 q = of_int (m * 2 ^ n)"
    using qn by (subst x) simp
  then have "round_half_even (x / pow2 q) = m * 2 ^ n"
    by (simp only: rhe_int)
  then have "round_to_spacing x = of_int (m * 2 ^ n) * pow2 q"
    unfolding round_to_spacing_def q_def by simp
  with x show ?thesis
    by simp
qed

subsection \<open>Rounding to a double\<close>

lemma flt_NInf_right [simp]: "\<not> flt x NInf"
  by (cases x) simp_all

lemma flt_NaN_right [simp]: "\<not> flt x NaN"
  by (cases x) simp_all

lemma flt_PInf_left [simp]: "\<not> flt PInf x"
  by (cases x) simp_all

lemma flt_NaN_left [simp]: "\<not> flt NaN x"
  by (cases x) simp_all

lemma ilog2_pow2 [simp]: "ilog2 (pow2 k) = k"
  by (rule ilog2_unique) simp_all

lemma ilog2_ge_iff:
  assumes "0 < r"
  shows "k \<le> ilog2 r \<longleftrightarrow> pow2 k \<le> r"
proof
  assume "k \<le> ilog2 r"
  then have "pow2 k \<le> pow2 (ilog2 r)" by simp
  also have "\<dots> \<le> r" using ilog2_bounds [OF assms] by simp
  finally show "pow2 k \<le> r" .
next
  assume "pow2 k \<le> r"
  then have "ilog2 (pow2 k) \<le> ilog2 r"
    by (intro ilog2_mono) simp_all
  then show "k \<le> ilog2 r" by simp
qed

lemma overflow_to_inf_alt:
  "overflow_to_inf r =
     (if pow2 1024 \<le> r then PInf else if r \<le> - pow2 1024 then NInf else Fin r)"
proof -
  have p: "0 < pow2 1024" by simp
  consider "r = 0" | "0 < r" | "r < 0" by linarith
  then show ?thesis
  proof cases
    case 1
    then show ?thesis by (simp add: overflow_to_inf_def not_le)
  next
    case 2
    then have "1024 \<le> ilog2 \<bar>r\<bar> \<longleftrightarrow> pow2 1024 \<le> r"
      using ilog2_ge_iff [of r 1024] by simp
    then show ?thesis using 2 p by (auto simp: overflow_to_inf_def)
  next
    case 3
    then have "1024 \<le> ilog2 \<bar>r\<bar> \<longleftrightarrow> r \<le> - pow2 1024"
      using ilog2_ge_iff [of "- r" 1024] by auto
    moreover have "\<not> pow2 1024 \<le> r"
      using 3 p by linarith
    ultimately show ?thesis using 3 by (auto simp: overflow_to_inf_def)
  qed
qed

lemma round_double_alt:
  "round_double x =
     (if pow2 1024 \<le> round_to_spacing x then PInf
      else if round_to_spacing x \<le> - pow2 1024 then NInf
      else Fin (round_to_spacing x))"
  by (simp add: round_double_def overflow_to_inf_alt)

lemma round_double_not_nan [simp]: "round_double x \<noteq> NaN"
  by (simp add: round_double_alt)

lemma round_double_mono:
  assumes "x \<le> y"
  shows "\<not> flt (round_double y) (round_double x)"
proof -
  have "round_to_spacing x \<le> round_to_spacing y"
    using assms by (rule rts_mono)
  moreover have "0 < pow2 1024" by simp
  ultimately show ?thesis
    by (auto simp: round_double_alt)
qed

lemma is_double_iff:
  "is_double (Fin d) \<longleftrightarrow> round_to_spacing d = d \<and> \<bar>d\<bar> < pow2 1024"
  by (auto simp: round_double_alt split: if_splits)

lemma quantum_le:
  assumes "x \<noteq> 0" "\<bar>x\<bar> < pow2 (e + 53)" "- 1074 \<le> e"
  shows "quantum x \<le> e"
proof -
  have "0 < \<bar>x\<bar>" using assms(1) by simp
  then have "pow2 (ilog2 \<bar>x\<bar>) \<le> \<bar>x\<bar>"
    using ilog2_bounds by blast
  then have "pow2 (ilog2 \<bar>x\<bar>) < pow2 (e + 53)"
    using assms(2) by linarith
  then have "ilog2 \<bar>x\<bar> < e + 53" by simp
  then show ?thesis
    using assms(3) by (simp add: quantum_def)
qed

lemma quantum_ge:
  assumes "pow2 k \<le> \<bar>x\<bar>"
  shows "k - 52 \<le> quantum x"
proof -
  have "0 < \<bar>x\<bar>"
    using assms pow2_pos [of k] by linarith
  then have "k \<le> ilog2 \<bar>x\<bar>"
    using assms by (simp add: ilog2_ge_iff)
  then show ?thesis
    by (simp add: quantum_def)
qed

lemma abs_mult_pow2: "\<bar>of_int m * pow2 e\<bar> = of_int \<bar>m\<bar> * pow2 e"
  by (simp add: abs_mult)

lemma round_double_exact:
  assumes "x = of_int m * pow2 e" "\<bar>m\<bar> < 2 ^ 53" "- 1074 \<le> e" "e + 53 \<le> 1024"
  shows "round_double x = Fin x"
proof -
  have "(of_int \<bar>m\<bar> :: rat) < of_int (2 ^ 53)"
    using assms(2) by (simp only: of_int_less_iff)
  then have "of_int \<bar>m\<bar> * pow2 e < of_int (2 ^ 53) * pow2 e"
    by (simp add: mult_strict_right_mono)
  then have b: "\<bar>x\<bar> < pow2 (e + 53)"
    unfolding assms(1) abs_mult_pow2 pow2_add_nat [symmetric] by simp
  also have "\<dots> \<le> pow2 1024"
    using assms(4) by simp
  finally have lt: "\<bar>x\<bar> < pow2 1024" .
  have "round_to_spacing x = x"
  proof (cases "x = 0")
    case True
    then show ?thesis by simp
  next
    case False
    then have "quantum x \<le> e"
      using b assms(3) by (rule quantum_le)
    with assms(1) show ?thesis by (rule rts_exact)
  qed
  then show ?thesis
    using lt by (auto simp: round_double_alt)
qed

lemma round_double_int:
  assumes "\<bar>n\<bar> < 2 ^ 53"
  shows "round_double (of_int n) = Fin (of_int n)"
  using round_double_exact [of "of_int n" n 0] assms by simp

lemma fsub_Fin [simp]: "fsub (Fin a) (Fin b) = round_double (a - b)"
  by (simp add: fsub_def)

lemma fsub_mono_left:
  assumes "\<not> flt a1 a2"
  shows "\<not> flt (fsub a1 p) (fsub a2 p)"
proof (cases p)
  case (Fin b)
  show ?thesis
  proof (cases a1)
    case a1: (Fin x1)
    show ?thesis
    proof (cases a2)
      case a2: (Fin x2)
      with a1 assms have "x2 - b \<le> x1 - b" by simp
      then show ?thesis
        using round_double_mono by (simp add: Fin a1 a2)
    qed (use assms a1 Fin in \<open>simp_all add: fsub_def\<close>)
  qed (use assms Fin in \<open>cases a2; simp add: fsub_def\<close>)+
next
  case PInf
  then show ?thesis
    using assms by (cases a1; cases a2; simp add: fsub_def)
next
  case NInf
  then show ?thesis
    using assms by (cases a1; cases a2; simp add: fsub_def)
next
  case NaN
  then show ?thesis
    by (cases a1; cases a2; simp add: fsub_def)
qed

lemma fsub_anti_right:
  assumes "flt t1 t2"
  shows "\<not> flt (fsub (Fin c) t1) (fsub (Fin c) t2)"
proof (cases t1)
  case t1: (Fin x1)
  show ?thesis
  proof (cases t2)
    case t2: (Fin x2)
    with t1 assms have "c - x2 \<le> c - x1" by simp
    then show ?thesis
      using round_double_mono by (simp add: t1 t2)
  qed (use assms t1 in \<open>simp_all add: fsub_def\<close>)
qed (use assms in \<open>cases t2; simp add: fsub_def\<close>)+

section \<open>The validator in general\<close>

text \<open>
  C1. For every pair of inputs the validator computes
  lpPercent = 100 - teamPercent - publicPercent and returns it in every case. The
  outcome is invalid with reason \<open>LP_ZERO_OR_NEGATIVE\<close> exactly when lpPercent < 0.1;
  it is invalid with reason \<open>LP_FDV_BELOW_ICO_FDV\<close> exactly when that is not so and
  publicPercent > 0.1 and lpPercent > 0.2 * publicPercent; it is valid, with no
  reason and an empty message, exactly in the remaining case. The subtractions, the
  product and the comparisons of doubles cannot raise, so the validator has a
  result for every pair.
\<close>

theorem validate_allocation_outcome:
  "fst (snd (validate_allocation t p)) = fsub (fsub (Fin 100) t) p
   \<and> (reason_of (snd (snd (validate_allocation t p))) = Some LP_ZERO_OR_NEGATIVE
        \<longleftrightarrow> flt (fsub (fsub (Fin 100) t) p) lit_0_1)
   \<and> (reason_of (snd (snd (validate_allocation t p))) = Some LP_FDV_BELOW_ICO_FDV
        \<longleftrightarrow> \<not> flt (fsub (fsub (Fin 100) t) p) lit_0_1
            \<and> fgt p lit_0_1 \<and> fgt (fsub (fsub (Fin 100) t) p) (fmul lit_0_2 p))
   \<and> (fst (validate_allocation t p)
        \<longleftrightarrow> \<not> flt (fsub (fsub (Fin 100) t) p) lit_0_1
            \<and> \<not> (fgt p lit_0_1 \<and> fgt (fsub (fsub (Fin 100) t) p) (fmul lit_0_2 p)))
   \<and> (fst (validate_allocation t p)
        \<longleftrightarrow> reason_of (snd (snd (validate_allocation t p))) = None)
   \<and> (fst (validate_allocation t p) \<longleftrightarrow> snd (snd (validate_allocation t p)) = '''')"
  by (simp add: validate_allocation_def Let_def reason_of_def)

section \<open>Monotonicity of the LP share\<close>

lemma lp_of_validate:
  "fst (snd (validate_allocation t p)) = fsub (fsub (Fin 100) t) p"
  by (simp add: validate_allocation_def Let_def)

lemma lp_int:
  assumes "\<bar>i\<bar> \<le> 2 ^ 50" "\<bar>j\<bar> \<le> 2 ^ 50"
  shows "fsub (fsub (Fin 100) (Fin (of_int i))) (Fin (of_int j)) = Fin (of_int (100 - i - j))"
proof -
  have "\<bar>100 - i\<bar> < 2 ^ 53"
    using assms(1) by simp
  then have "round_double (of_int (100 - i)) = Fin (of_int (100 - i))"
    by (rule round_double_int)
  then have a: "fsub (Fin 100) (Fin (of_int i)) = Fin (of_int (100 - i))"
    by simp
  have "\<bar>100 - i - j\<bar> < 2 ^ 53"
    using assms by simp
  then have "round_double (of_int (100 - i - j)) = Fin (of_int (100 - i - j))"
    by (rule round_double_int)
  then show ?thesis
    unfolding a by simp
qed

text \<open>
  C10, as stated: with publicPercent fixed, a larger teamPercent gives a strictly
  smaller lpPercent. The doubles 10 and 10 + 2^-49 (the next double after 10) with
  publicPercent = 70 both give lpPercent = 20: 100 - (10 + 2^-49) rounds to 90.
\<close>

theorem lp_not_strictly_antitone:
  "is_double (Fin 10) \<and> is_double (Fin (10 + 1 / 2 ^ 49)) \<and> is_double (Fin 70)
   \<and> flt (Fin 10) (Fin (10 + 1 / 2 ^ 49))
   \<and> \<not> flt (fst (snd (validate_allocation (Fin (10 + 1 / 2 ^ 49)) (Fin 70))))
            (fst (snd (validate_allocation (Fin 10) (Fin 70))))"
proof -
  have a: "is_double (Fin 10)" by code_simp
  have b: "is_double (Fin (10 + 1 / 2 ^ 49))" by code_simp
  have c: "is_double (Fin 70)" by code_simp
  have d: "flt (Fin 10) (Fin (10 + 1 / 2 ^ 49))" by simp
  have e: "fst (snd (validate_allocation (Fin (10 + 1 / 2 ^ 49)) (Fin 70))) = Fin 20"
    by code_simp
  have f: "fst (snd (validate_allocation (Fin 10) (Fin 70))) = Fin 20"
    by code_simp
  have g: "\<not> flt (Fin 20) (Fin 20)" by simp
  show ?thesis
    unfolding e f using a b c d g by blast
qed

text \<open>
  C10, amended. With publicPercent fixed, lpPercent is antitone in teamPercent: for
  team1 < team2 the lpPercent returned for team2 is never greater than the one
  returned for team1. It is strictly less when team1, team2 and publicPercent are
  whole numbers of magnitude at most 2^50, as the slider values are.
\<close>

theorem lp_antitone_in_team:
  "(flt t1 t2 \<longrightarrow>
      \<not> flt (fst (snd (validate_allocation t1 p))) (fst (snd (validate_allocation t2 p))))
   \<and> (i1 < i2 \<and> \<bar>i1\<bar> \<le> 2 ^ 50 \<and> \<bar>i2\<bar> \<le> 2 ^ 50 \<and> \<bar>j\<bar> \<le> 2 ^ 50 \<longrightarrow>
      flt (fst (snd (validate_allocation (Fin (of_int i2)) (Fin (of_int j)))))
          (fst (snd (validate_allocation (Fin (of_int i1)) (Fin (of_int j))))))"
proof (intro conjI impI)
  assume "flt t1 t2"
  then have "\<not> flt (fsub (Fin 100) t1) (fsub (Fin 100) t2)"
    by (rule fsub_anti_right)
  then have "\<not> flt (fsub (fsub (Fin 100) t1) p) (fsub (fsub (Fin 100) t2) p)"
    by (rule fsub_mono_left)
  then show "\<not> flt (fst (snd (validate_allocation t1 p))) (fst (snd (validate_allocation t2 p)))"
    by (simp add: lp_of_validate)
next
  assume h: "i1 < i2 \<and> \<bar>i1\<bar> \<le> 2 ^ 50 \<and> \<bar>i2\<bar> \<le> 2 ^ 50 \<and> \<bar>j\<bar> \<le> 2 ^ 50"
  then have lt: "i1 < i2" and b1: "\<bar>i1\<bar> \<le> 2 ^ 50" and b2: "\<bar>i2\<bar> \<le> 2 ^ 50"
    and bj: "\<bar>j\<bar> \<le> 2 ^ 50"
    by blast+
  note e1 = lp_int [OF b1 bj] and e2 = lp_int [OF b2 bj]
  show "flt (fst (snd (validate_allocation (Fin (of_int i2)) (Fin (of_int j)))))
          (fst (snd (validate_allocation (Fin (of_int i1)) (Fin (of_int j)))))"
    unfolding lp_of_validate e1 e2 using lt by simp
qed

theorem lp_antitone_in_team_witness:
  "flt (Fin 10) (Fin 11)
   \<and> \<not> flt (fst (snd (validate_allocation (Fin 10) (Fin 70))))
            (fst (snd (validate_allocation (Fin 11) (Fin 70))))
   \<and> (10 :: int) < 11
   \<and> flt (fst (snd (validate_allocation (Fin 11) (Fin 70))))
          (fst (snd (validate_allocation (Fin 10) (Fin 70))))"
  using lp_antitone_in_team [of "Fin 10" "Fin 11" "Fin 70" 10 11 70] by simp

section \<open>The web validator and the slider validator\<close>

lemma lit_0_1_val: "lit_0_1 = Fin (3602879701896397 / 36028797018963968)"
  by code_simp

lemma rts_99: "round_to_spacing 99 = 99"
proof -
  have "round_double (of_int 99) = Fin (of_int 99)"
    by (rule round_double_int) simp
  then show ?thesis
    by (simp add: round_double_alt split: if_splits)
qed

lemma rts_sixteenth: "round_double (1 / 16) = Fin (1 / 16)"
proof -
  have "(1 / 16 :: rat) = of_int 1 * pow2 (- 4)"
    by (simp add: pow2_def)
  then show ?thesis
    by (rule round_double_exact) simp_all
qed

text \<open>A double of magnitude at least \<open>2 ^ k\<close> is a multiple of \<open>2 ^ (k - 52)\<close>.\<close>

lemma double_multiple:
  assumes "is_double (Fin d)" "pow2 k \<le> \<bar>d\<bar>"
  shows "\<exists>m. d = of_int m * pow2 (k - 52)"
proof -
  have r: "round_to_spacing d = d"
    using assms(1) is_double_iff [of d] by blast
  define q where "q = quantum d"
  define n where "n = nat (q - (k - 52))"
  have "k - 52 \<le> q"
    unfolding q_def using assms(2) by (rule quantum_ge)
  then have "q = (k - 52) + int n"
    by (simp add: n_def)
  then have e: "pow2 q = of_int (2 ^ n) * pow2 (k - 52)"
    by (simp only: pow2_add_nat)
  define m where "m = round_half_even (d / pow2 q)"
  have "d = of_int m * pow2 q"
    using r unfolding round_to_spacing_def q_def m_def by simp
  then have "d = of_int (m * 2 ^ n) * pow2 (k - 52)"
    unfolding e by simp
  then show ?thesis ..
qed


lemma pow2_1024: "pow2 1024 = 9007199254740992 * (2 * pow2 970)"
proof -
  have "pow2 1024 = pow2 (970 + int 54)" by simp
  also have "\<dots> = of_int (2 ^ 54) * pow2 970" by (simp only: pow2_add_nat)
  finally show ?thesis by simp
qed

lemma pow2_1023: "pow2 1023 = 4503599627370496 * (2 * pow2 970)"
proof -
  have "pow2 1023 = pow2 (970 + int 53)" by simp
  also have "\<dots> = of_int (2 ^ 53) * pow2 970" by (simp only: pow2_add_nat)
  finally show ?thesis by simp
qed

lemma pow2_971: "pow2 971 = 2 * pow2 970"
proof -
  have "pow2 971 = pow2 (970 + int 1)" by simp
  also have "\<dots> = of_int (2 ^ 1) * pow2 970" by (simp only: pow2_add_nat)
  finally show ?thesis by simp
qed

lemma pow2_970_big: "128 \<le> pow2 970"
proof -
  have "pow2 7 \<le> pow2 970" by simp
  then show ?thesis by (simp add: pow2_def)
qed

text \<open>No double exceeds \<open>(2 ^ 53 - 1) * 2 ^ 971\<close> in magnitude.\<close>

lemma double_le_max:
  assumes "is_double (Fin d)"
  shows "\<bar>d\<bar> \<le> 9007199254740991 * (2 * pow2 970)"
proof (cases "pow2 1023 \<le> \<bar>d\<bar>")
  case False
  then show ?thesis
    using pow2_970_big by (simp add: pow2_1023)
next
  case True
  with assms obtain m where m: "d = of_int m * pow2 (1023 - 52)"
    using double_multiple by blast
  have lt: "\<bar>d\<bar> < pow2 1024"
    using assms is_double_iff [of d] by blast
  have d: "\<bar>d\<bar> = of_int \<bar>m\<bar> * (2 * pow2 970)"
    using m by (simp add: pow2_971 abs_mult)
  have pos: "0 < 2 * pow2 970"
    using pow2_970_big by linarith
  have "of_int \<bar>m\<bar> * (2 * pow2 970) < 9007199254740992 * (2 * pow2 970)"
    using lt unfolding d pow2_1024 .
  then have "(of_int \<bar>m\<bar> :: rat) < 9007199254740992"
    using pos by (simp only: mult_less_cancel_right_pos)
  then have "(of_int \<bar>m\<bar> :: rat) < of_int 9007199254740992"
    by simp
  then have "\<bar>m\<bar> < 9007199254740992"
    by (simp only: of_int_less_iff)
  then have "\<bar>m\<bar> \<le> 9007199254740991"
    by simp
  then have "(of_int \<bar>m\<bar> :: rat) \<le> of_int 9007199254740991"
    by (simp only: of_int_le_iff)
  then have "(of_int \<bar>m\<bar> :: rat) \<le> 9007199254740991"
    by simp
  then show ?thesis
    unfolding d using pos by (simp only: mult_le_cancel_right_pos)
qed

text \<open>The first subtraction, \<^verbatim>\<open>100 - team\<close>, cannot overflow.\<close>

lemma sub100_finite:
  assumes "is_double (Fin t)"
  shows "fsub (Fin 100) (Fin t) = Fin (round_to_spacing (100 - t))"
proof -
  define x where "x = 100 - t"
  have t: "\<bar>t\<bar> \<le> 9007199254740991 * (2 * pow2 970)"
    using assms by (rule double_le_max)
  have ax: "\<bar>x\<bar> \<le> 9007199254740991 * (2 * pow2 970) + 100"
    using t by (simp add: x_def abs_le_iff)
  have e: "\<bar>round_to_spacing x - x\<bar> \<le> pow2 970"
  proof (cases "x = 0")
    case True
    then show ?thesis by simp
  next
    case False
    have "\<bar>x\<bar> < pow2 (971 + 53)"
      using ax pow2_970_big by (simp add: pow2_1024)
    with False have "quantum x \<le> 971"
      by (rule quantum_le) simp
    then have "pow2 (quantum x) \<le> pow2 971"
      by simp
    then show ?thesis
      using rts_err [of x] by (simp add: pow2_971)
  qed
  have "\<bar>round_to_spacing x\<bar> < pow2 1024"
    using e ax pow2_970_big unfolding pow2_1024 by (simp add: abs_le_iff abs_less_iff)
  then show ?thesis
    by (simp add: round_double_alt x_def abs_less_iff not_le)
qed

lemma fge_round_100:
  assumes "fge (round_double z) (Fin 100)"
  shows "100 \<le> round_to_spacing z"
proof -
  have "100 \<le> pow2 1024"
    using pow2_970_big unfolding pow2_1024 by linarith
  then show ?thesis
    using assms by (auto simp: round_double_alt fge_def split: if_splits)
qed

lemma quantum_near_100:
  assumes "99 < z" "z < 100"
  shows "quantum z = - 46"
proof -
  have "ilog2 z = 6"
    by (rule ilog2_unique) (use assms in \<open>simp_all add: pow2_def\<close>)
  moreover have "\<bar>z\<bar> = z"
    using assms by simp
  ultimately show ?thesis
    by (simp add: quantum_def)
qed

lemma lp_small:
  assumes dt: "is_double (Fin t)" and dp: "is_double (Fin p)"
    and s: "100 \<le> round_to_spacing (t + p)"
  shows "round_to_spacing (100 - t) - p \<le> 1 / 16"
proof (cases "100 \<le> t + p")
  case True
  then have "100 - t \<le> p" by simp
  then have "round_to_spacing (100 - t) \<le> round_to_spacing p"
    by (rule rts_mono)
  moreover have "round_to_spacing p = p"
    using dp is_double_iff [of p] by blast
  ultimately show ?thesis by simp
next
  case False
  define z where "z = t + p"
  have z100: "z < 100"
    using False by (simp add: z_def)
  have sz: "100 \<le> round_to_spacing z"
    using s by (simp add: z_def)
  have z99: "99 < z"
  proof (rule ccontr)
    assume "\<not> 99 < z"
    then have "z \<le> 99" by simp
    then have "round_to_spacing z \<le> round_to_spacing 99"
      by (rule rts_mono)
    with sz show False
      by (simp add: rts_99)
  qed
  have q: "quantum z = - 46"
    using z99 z100 by (rule quantum_near_100)
  have "\<bar>round_to_spacing z - z\<bar> \<le> pow2 (- 46) / 2"
    using rts_err [of z] by (simp only: q)
  then have "\<bar>round_to_spacing z - z\<bar> \<le> 1 / 140737488355328"
    by (simp add: pow2_def)
  then have "round_to_spacing z - z \<le> 1 / 140737488355328"
    by (simp only: abs_le_iff)
  then have zlo: "100 - 1 / 140737488355328 \<le> z"
    using sz by linarith
  define x where "x = 100 - t"
  have xp1: "x - p \<le> 1 / 140737488355328"
    using zlo by (simp add: x_def z_def)
  have xp2: "p < x"
    using z100 by (simp add: x_def z_def)
  show ?thesis
  proof (cases "\<bar>p\<bar> < pow2 48")
    case True
    then have pb: "\<bar>p\<bar> < 281474976710656"
      by (simp add: pow2_def)
    have e: "\<bar>round_to_spacing x - x\<bar> \<le> 1 / 32"
    proof (cases "x = 0")
      case True
      then show ?thesis by simp
    next
      case False
      have "\<bar>x\<bar> < 562949953421312"
        using pb xp1 xp2 by (simp add: abs_less_iff)
      then have "\<bar>x\<bar> < pow2 (- 4 + 53)"
        by (simp add: pow2_def)
      with False have "quantum x \<le> - 4"
        by (rule quantum_le) simp
      then have "pow2 (quantum x) \<le> pow2 (- 4)"
        by simp
      then have "pow2 (quantum x) \<le> 1 / 16"
        by (simp add: pow2_def)
      then show ?thesis
        using rts_err [of x] by simp
    qed
    have "round_to_spacing x - p = (round_to_spacing x - x) + (x - p)"
      by simp
    also have "\<dots> \<le> 1 / 32 + 1 / 140737488355328"
    proof -
      have "round_to_spacing x - x \<le> 1 / 32"
        using e by (simp only: abs_le_iff)
      with xp1 show ?thesis by linarith
    qed
    also have "\<dots> \<le> 1 / 16"
      by simp
    finally show ?thesis
      by (simp add: x_def)
  next
    case False
    then have big: "pow2 48 \<le> \<bar>p\<bar>" by simp
    then have pb: "281474976710656 \<le> \<bar>p\<bar>"
      by (simp add: pow2_def)
    obtain mp where "p = of_int mp * pow2 (48 - 52)"
      using double_multiple [OF dp big] by blast
    then have mp: "p = of_int mp / 16"
      by (simp add: pow2_def)
    have "140737488355328 \<le> \<bar>t\<bar>"
      using pb z99 z100 unfolding z_def by linarith
    then have "pow2 47 \<le> \<bar>t\<bar>"
      by (simp add: pow2_def)
    then obtain mt where "t = of_int mt * pow2 (47 - 52)"
      using double_multiple [OF dt] by blast
    then have mt: "t = of_int mt / 32"
      by (simp add: pow2_def)
    define K where "K = 2 * mp + mt"
    have zK: "z = of_int K / 32"
      by (simp add: z_def mp mt K_def)
    have "(of_int K :: rat) < of_int 3200"
      using z100 by (simp add: zK)
    then have "K < 3200"
      by (simp only: of_int_less_iff)
    then have "K \<le> 3199" by simp
    then have "(of_int K :: rat) \<le> of_int 3199"
      by (simp only: of_int_le_iff)
    then have "z \<le> 3199 / 32"
      by (simp add: zK)
    with zlo show ?thesis by simp
  qed
qed

lemma lp_below_floor:
  assumes "a - p \<le> 1 / 16"
  shows "flt (round_double (a - p)) lit_0_1"
proof -
  have "\<not> flt (round_double (1 / 16)) (round_double (a - p))"
    using assms by (rule round_double_mono)
  then have n: "\<not> flt (Fin (1 / 16)) (round_double (a - p))"
    unfolding rts_sixteenth .
  show ?thesis
  proof (cases "round_double (a - p)")
    case (Fin v)
    with n have "v \<le> 1 / 16" by simp
    then show ?thesis
      by (simp add: Fin lit_0_1_val)
  next
    case PInf
    have "flt (Fin (1 / 16)) (round_double (a - p))"
      unfolding PInf by simp
    with n show ?thesis by blast
  next
    case NInf
    then show ?thesis by (simp add: lit_0_1_val)
  next
    case NaN
    then show ?thesis by simp
  qed
qed

lemma sum_check_subsumed:
  assumes "is_double t" "is_double p" "fge (fadd t p) (Fin 100)"
  shows "flt (fsub (fsub (Fin 100) t) p) lit_0_1"
proof (cases t)
  case t: (Fin a)
  then have da: "is_double (Fin a)" using assms(1) by simp
  note s = sub100_finite [OF da]
  show ?thesis
  proof (cases p)
    case p: (Fin b)
    then have db: "is_double (Fin b)" using assms(2) by simp
    have "fge (round_double (a + b)) (Fin 100)"
      using assms(3) by (simp add: t p)
    then have "100 \<le> round_to_spacing (a + b)"
      by (rule fge_round_100)
    with da db have "round_to_spacing (100 - a) - b \<le> 1 / 16"
      by (rule lp_small)
    then have "flt (round_double (round_to_spacing (100 - a) - b)) lit_0_1"
      by (rule lp_below_floor)
    then show ?thesis
      unfolding t p s by simp
  next
    case PInf
    then show ?thesis
      unfolding t s by (simp add: fsub_def lit_0_1_val)
  next
    case NInf
    then show ?thesis
      using assms(3) by (simp add: t fge_def)
  next
    case NaN
    then show ?thesis
      using assms(3) by (simp add: t fge_def)
  qed
next
  case PInf
  then show ?thesis
    using assms(3) by (cases p) (simp_all add: fsub_def fge_def lit_0_1_val)
next
  case NInf
  then show ?thesis
    using assms(3) by (cases p) (simp_all add: fsub_def fge_def lit_0_1_val)
next
  case NaN
  then show ?thesis
    using assms(3) by (simp add: fge_def)
qed

text \<open>
  C2. The web engine and the GUI engine decide validity identically: for every pair
  of doubles (teamPercent, publicPercent), infinities and NaN included,
  \<^verbatim>\<open>validate_allocation\<close> of \<^verbatim>\<open>app.py\<close> returns valid if and only if the three
  checks of \<^verbatim>\<open>validate_and_update\<close> of \<^verbatim>\<open>run.py\<close> (team + public >= 100, lp < 0.1,
  and public > 0.1 with lp > 0.2 * public, each rejecting) accept the pair. The
  first check of the GUI rejects nothing that the floor check lets through: when
  the rounded sum reaches 100, the rounded lp is at most 1/16.
\<close>

theorem web_and_gui_validity_agree:
  assumes "is_double t" "is_double p"
  shows "fst (validate_allocation t p) = gui_is_valid t p"
proof (cases "fge (fadd t p) (Fin 100)")
  case True
  with assms have "flt (fsub (fsub (Fin 100) t) p) lit_0_1"
    by (rule sum_check_subsumed)
  then show ?thesis
    using True by (simp add: validate_allocation_def gui_is_valid_def Let_def)
next
  case False
  then show ?thesis
    by (simp add: validate_allocation_def gui_is_valid_def Let_def)
qed

theorem web_and_gui_validity_agree_witness:
  "is_double (Fin 30) \<and> is_double (Fin 80)
   \<and> fst (validate_allocation (Fin 30) (Fin 80)) = gui_is_valid (Fin 30) (Fin 80)
   \<and> fge (fadd (Fin 30) (Fin 80)) (Fin 100)"
proof -
  have a: "is_double (Fin 30)" by code_simp
  have b: "is_double (Fin 80)" by code_simp
  have c: "fge (fadd (Fin 30) (Fin 80)) (Fin 100)" by code_simp
  from web_and_gui_validity_agree [OF a b] a b c show ?thesis
    by blast
qed

section \<open>The derivation in general\<close>

lemma round_double_0: "round_double 0 = Fin 0"
  by (simp add: round_double_def round_to_spacing_def round_half_even_def overflow_to_inf_def)

lemma fdiv_const: "c \<noteq> 0 \<Longrightarrow> fdiv x (Fin c) = Inr (fquot x (Fin c))"
  by (simp add: fdiv_def)

lemma fdiv_guarded: "fgt y (Fin 0) \<Longrightarrow> fdiv x y = Inr (fquot x y)"
  by (auto simp: fdiv_def fgt_def)

lemma fmul_supply_0: "fmul TOTAL_SUPPLY (Fin 0) = Fin 0"
  by (simp add: TOTAL_SUPPLY_def round_double_0)

lemma derive_total:
  "\<exists>r. derive t p lp f = Inr r
     \<and> (\<not> fgt (publicTokens r) (Fin 0) \<longrightarrow> icoPrice r = Fin 0 \<and> fdvIco r = Fin 0)
     \<and> (\<not> fgt (lpTokens r) (Fin 0) \<longrightarrow> lpPrice r = Fin 0 \<and> fdvLp r = Fin 0)
     \<and> (\<not> fgt (fdvIco r) (Fin 0) \<longrightarrow> fdvMultiple r = Fin 0)"
  unfolding derive_def Let_def
  by (simp add: fdiv_const fdiv_guarded bind_err_def fmul_supply_0)

text \<open>
  C6. The derivation raises for no input: it returns a result for every
  teamPercent, publicPercent, lpPercent and fundsToRaise (infinities and NaN
  included), and so do \<^verbatim>\<open>update_calculations\<close> of \<^verbatim>\<open>run.py\<close> and the page of
  \<^verbatim>\<open>app.py\<close>. In the result, icoPrice = 0 and fdvIco = 0 when publicTokens is not
  greater than 0, lpPrice = 0 and fdvLp = 0 when lpTokens is not greater than 0, and
  fdvMultiple = 0 when fdvIco is not greater than 0.
\<close>

theorem derivation_never_raises:
  "(\<exists>r. derive t p lp f = Inr r
      \<and> (\<not> fgt (publicTokens r) (Fin 0) \<longrightarrow> icoPrice r = Fin 0 \<and> fdvIco r = Fin 0)
      \<and> (\<not> fgt (lpTokens r) (Fin 0) \<longrightarrow> lpPrice r = Fin 0 \<and> fdvLp r = Fin 0)
      \<and> (\<not> fgt (fdvIco r) (Fin 0) \<longrightarrow> fdvMultiple r = Fin 0))
   \<and> (\<exists>r. update_calculations st = Inr r)
   \<and> (\<exists>pg. app_page team funds public = Inr pg)"
proof -
  have u: "\<exists>r. update_calculations st = Inr r"
    using derive_total unfolding update_calculations_def Let_def by blast
  have a: "\<exists>pg. app_page team funds public = Inr pg"
  proof (cases "validate_allocation team public")
    case (fields is_valid lp_percent error_msg)
    obtain r where "derive team public lp_percent funds = Inr r"
      using derive_total by blast
    with fields show ?thesis
      by (simp add: app_page_def bind_err_def)
  qed
  show ?thesis
    using derive_total [of t p lp f] u a by blast
qed

theorem derivation_never_raises_witness:
  "\<exists>r. derive (Fin 0) (Fin 0) (Fin 0) (Fin 100000) = Inr r
     \<and> \<not> fgt (publicTokens r) (Fin 0) \<and> icoPrice r = Fin 0 \<and> fdvIco r = Fin 0
     \<and> \<not> fgt (lpTokens r) (Fin 0) \<and> lpPrice r = Fin 0 \<and> fdvLp r = Fin 0
     \<and> \<not> fgt (fdvIco r) (Fin 0) \<and> fdvMultiple r = Fin 0"
proof -
  have e: "derive (Fin 0) (Fin 0) (Fin 0) (Fin 100000)
             = Inr \<lparr> lpPercent = Fin 0, teamTokens = Fin 0, publicTokens = Fin 0,
                     lpTokens = Fin 0, lpFunds = Fin 20000, teamFunds = Fin 80000,
                     icoPrice = Fin 0, lpPrice = Fin 0, fdvIco = Fin 0, fdvLp = Fin 0,
                     fdvMultiple = Fin 0 \<rparr>"
    by code_simp
  from derivation_never_raises [of "Fin 0" "Fin 0" "Fin 0" "Fin 100000" init_gui
      "Fin 0" "Fin 100000" "Fin 0"]
  obtain r where r: "derive (Fin 0) (Fin 0) (Fin 0) (Fin 100000) = Inr r"
    and i: "\<not> fgt (publicTokens r) (Fin 0) \<longrightarrow> icoPrice r = Fin 0 \<and> fdvIco r = Fin 0"
    and l: "\<not> fgt (lpTokens r) (Fin 0) \<longrightarrow> lpPrice r = Fin 0 \<and> fdvLp r = Fin 0"
    and m: "\<not> fgt (fdvIco r) (Fin 0) \<longrightarrow> fdvMultiple r = Fin 0"
    by blast
  from r e have p: "publicTokens r = Fin 0" and q: "lpTokens r = Fin 0"
    by auto
  have z: "\<not> fgt (Fin 0) (Fin 0)"
    by (simp add: fgt_def)
  from i l m p q z show ?thesis
    using r by auto
qed

section \<open>Number formatting in general\<close>

text \<open>
  C9, as stated: thousands separators appear in the unsuffixed case only. They
  appear with a suffix as well: 10^12 is rendered "1,000.00B", where the wording of
  the helper gives "1000.00B".
\<close>

theorem format_number_separator_with_suffix:
  "format_number (Fin 1000000000000) \<noteq> format_number_spec (Fin 1000000000000)"
proof -
  have c: "format_number (Fin 1000000000000) = Inr ''1,000.00B''"
    by code_simp
  have s: "format_number_spec (Fin 1000000000000) = Inr ''1000.00B''"
    by code_simp
  show ?thesis
    by (simp add: c s)
qed

text \<open>
  C9, amended. For every number n, \<^verbatim>\<open>format_number\<close> raises nothing and returns
  n/1e9 rendered with thousands separators and 2 decimals plus "B" when n >= 1e9,
  n/1e6 so rendered plus "M" when 1e6 <= n < 1e9, n/1e3 so rendered plus "K" when
  1e3 <= n < 1e6, and otherwise the raw value with thousands separators and 2
  decimals; in particular format_number(1250000000) = "1.25B",
  format_number(999) = "999.00", format_number(45000) = "45.00K" and
  format_number(10^12) = "1,000.00B".
\<close>

theorem format_number_cases:
  "format_number n =
     Inr (if fge n (Fin 1000000000) then fmt_comma_2f (fquot n (Fin 1000000000)) @ ''B''
          else if fge n (Fin 1000000) then fmt_comma_2f (fquot n (Fin 1000000)) @ ''M''
          else if fge n (Fin 1000) then fmt_comma_2f (fquot n (Fin 1000)) @ ''K''
          else fmt_comma_2f n)
   \<and> format_number (Fin 1250000000) = Inr ''1.25B''
   \<and> format_number (Fin 999) = Inr ''999.00''
   \<and> format_number (Fin 45000) = Inr ''45.00K''
   \<and> format_number (Fin 1000000000000) = Inr ''1,000.00B''"
proof -
  have g: "format_number n =
     Inr (if fge n (Fin 1000000000) then fmt_comma_2f (fquot n (Fin 1000000000)) @ ''B''
          else if fge n (Fin 1000000) then fmt_comma_2f (fquot n (Fin 1000000)) @ ''M''
          else if fge n (Fin 1000) then fmt_comma_2f (fquot n (Fin 1000)) @ ''K''
          else fmt_comma_2f n)"
    by (simp add: format_number_def fdiv_const bind_err_def)
  have b: "format_number (Fin 1250000000) = Inr ''1.25B''"
    by code_simp
  have r: "format_number (Fin 999) = Inr ''999.00''"
    by code_simp
  have k: "format_number (Fin 45000) = Inr ''45.00K''"
    by code_simp
  have t: "format_number (Fin 1000000000000) = Inr ''1,000.00B''"
    by code_simp
  from g b r k t show ?thesis
    by blast
qed

section \<open>The committed pair of the slider state machine\<close>

lemma step_prev:
  "(prev_team (step st e) = prev_team st \<and> prev_public (step st e) = prev_public st)
   \<or> (gui_is_valid (prev_team (step st e)) (prev_public (step st e))
       \<and> prev_team (step st e) = team_var (step st e)
       \<and> prev_public (step st e) = public_var (step st e))"
  by (cases e) (auto simp: validate_and_update_def Let_def)

lemma step_keeps_valid:
  "gui_is_valid (prev_team st) (prev_public st)
   \<Longrightarrow> gui_is_valid (prev_team (step st e)) (prev_public (step st e))"
  using step_prev [of st e] by auto

text \<open>
  C8. The claim is that the committed pair (prev_team, prev_public) satisfies the
  validator in every reachable state, starting from a valid initial pair. The
  initial state, reached with no edit at all, commits the pair (10, 70) unchecked,
  and that pair fails the third check of \<^verbatim>\<open>validate_and_update\<close> (and the web
  validator): lp = 20 exceeds 0.2 * 70 = 14. The steps themselves behave as claimed
  (\<open>step_prev\<close>, \<open>step_keeps_valid\<close>).
\<close>

theorem gui_initial_pair_not_valid:
  "run_edits [] = init_gui
   \<and> prev_team (run_edits []) = Fin 10 \<and> prev_public (run_edits []) = Fin 70
   \<and> \<not> gui_is_valid (prev_team (run_edits [])) (prev_public (run_edits []))
   \<and> \<not> fst (validate_allocation (prev_team (run_edits [])) (prev_public (run_edits [])))"
proof -
  have i: "run_edits [] = init_gui"
    by (simp add: run_edits_def)
  have g: "\<not> gui_is_valid (Fin 10) (Fin 70)"
    by code_simp
  have v: "\<not> fst (validate_allocation (Fin 10) (Fin 70))"
    by code_simp
  show ?thesis
    using g v by (simp add: i init_gui_def)
qed

section \<open>Scenarios of the validator\<close>

text \<open>
  C4. For teamPercent = 10 and publicPercent = 70 the validator returns invalid with
  the message "LP FDV would drop below ICO FDV" (reason \<open>LP_FDV_BELOW_ICO_FDV\<close>) and
  lpPercent = 20: publicPercent 70 exceeds 0.1, the product 0.2 * 70 is 14, and
  lpPercent 20 exceeds it. fundsToRaise is not an argument of the validator.
\<close>

theorem validate_team10_public70:
  "validate_allocation (Fin 10) (Fin 70)
     = (False, Fin 20, ''LP FDV would drop below ICO FDV'')
   \<and> reason_of (snd (snd (validate_allocation (Fin 10) (Fin 70)))) = Some LP_FDV_BELOW_ICO_FDV
   \<and> fmul lit_0_2 (Fin 70) = Fin 14
   \<and> fgt (Fin 20) (fmul lit_0_2 (Fin 70))
   \<and> fgt (Fin 70) lit_0_1"
proof -
  have v: "validate_allocation (Fin 10) (Fin 70)
             = (False, Fin 20, ''LP FDV would drop below ICO FDV'')"
    by code_simp
  have m: "fmul lit_0_2 (Fin 70) = Fin 14"
    by code_simp
  have g: "fgt (Fin 70) lit_0_1"
    by code_simp
  have l: "fgt (Fin 20) (Fin 14)"
    by (simp add: fgt_def)
  show ?thesis
    by (simp add: v m g l reason_of_def)
qed

text \<open>
  C3, as stated: for teamPercent = 10 and publicPercent = 89.9 the validator returns
  valid. It does not: the outcome at the double written \<^verbatim>\<open>89.9\<close> is invalid.
\<close>

theorem validate_team10_public89_9_not_valid:
  "\<not> fst (validate_allocation (Fin 10) (round_double (899 / 10)))"
  by code_simp

text \<open>
  C3, amended. For teamPercent = 10 and publicPercent = 89.9 the validator returns
  invalid with the message "LP cannot be 0%" (reason \<open>LP_ZERO_OR_NEGATIVE\<close>). The
  double nearest to 89.9 is 3163075050785997 / 2^45, a little above 89.9, so the
  computed lpPercent is 3518437208883 / 2^45 = 0.09999999999999432..., which is
  below the double 0.1, and the test \<^verbatim>\<open>lp_percent < 0.1\<close> of step 2 is true.
\<close>

theorem validate_team10_public89_9:
  "validate_allocation (Fin 10) (round_double (899 / 10))
     = (False, Fin (3518437208883 / 35184372088832), ''LP cannot be 0%'')
   \<and> round_double (899 / 10) = Fin (3163075050785997 / 35184372088832)
   \<and> is_double (round_double (899 / 10))
   \<and> flt (Fin (3518437208883 / 35184372088832)) lit_0_1"
proof -
  have v: "validate_allocation (Fin 10) (round_double (899 / 10))
     = (False, Fin (3518437208883 / 35184372088832), ''LP cannot be 0%'')"
    by code_simp
  have r: "round_double (899 / 10) = Fin (3163075050785997 / 35184372088832)"
    by code_simp
  have d: "is_double (round_double (899 / 10))"
    by code_simp
  have l: "flt (Fin (3518437208883 / 35184372088832)) lit_0_1"
    by code_simp
  show ?thesis
    using v r d l by simp
qed

section \<open>Scenarios of the derivation\<close>

text \<open>
  C7. For teamPercent = 0, publicPercent = 0 and fundsToRaise = 100000 the validator
  returns valid with lpPercent = 100, the third check being skipped because
  publicPercent > 0.1 is false, and the derivation yields publicTokens = 0,
  icoPrice = 0, fdvIco = 0, fdvMultiple = 0, lpTokens = 10000000000, lpFunds = 20000,
  lpPrice = 2e-6 (the double nearest to 2 / 1000000) and fdvLp = 20000.
\<close>

theorem page_team0_public0:
  "validate_allocation (Fin 0) (Fin 0) = (True, Fin 100, '''')
   \<and> \<not> fgt (Fin 0) lit_0_1
   \<and> app_page (Fin 0) (Fin 100000) (Fin 0)
       = Inr (Results \<lparr> lpPercent = Fin 100, teamTokens = Fin 0, publicTokens = Fin 0,
                         lpTokens = Fin 10000000000, lpFunds = Fin 20000,
                         teamFunds = Fin 80000, icoPrice = Fin 0,
                         lpPrice = round_double (2 / 1000000),
                         fdvIco = Fin 0, fdvLp = Fin 20000, fdvMultiple = Fin 0 \<rparr>)"
proof -
  have v: "validate_allocation (Fin 0) (Fin 0) = (True, Fin 100, '''')"
    by code_simp
  have g: "\<not> fgt (Fin 0) lit_0_1"
    by code_simp
  have p: "app_page (Fin 0) (Fin 100000) (Fin 0)
       = Inr (Results \<lparr> lpPercent = Fin 100, teamTokens = Fin 0, publicTokens = Fin 0,
                         lpTokens = Fin 10000000000, lpFunds = Fin 20000,
                         teamFunds = Fin 80000, icoPrice = Fin 0,
                         lpPrice = round_double (2 / 1000000),
                         fdvIco = Fin 0, fdvLp = Fin 20000, fdvMultiple = Fin 0 \<rparr>)"
    by code_simp
  show ?thesis
    using v g p by simp
qed

text \<open>
  C5. The claim is that every valid input with publicPercent > 0.1 and
  fundsToRaise > 0 has fdvLp >= fdvIco. The slider values teamPercent = 16,
  publicPercent = 70, fundsToRaise = 10000 are valid (lpPercent = 14 is not greater
  than 0.2 * 70 = 14), and the derivation gives
  fdvIco = 14285.714285714286 and fdvLp = 14285.714285714284, one unit in the last
  place less, with fdvMultiple = 1 - 2^-53: lpTokens = 10^10 * (14 / 100) rounds to
  1400000000.0000002 while publicTokens is exactly 7000000000.
\<close>

theorem page_team16_public70_fdv:
  "validate_allocation (Fin 16) (Fin 70) = (True, Fin 14, '''')
   \<and> fgt (Fin 70) lit_0_1 \<and> fgt (Fin 10000) (Fin 0)
   \<and> app_page (Fin 16) (Fin 10000) (Fin 70)
       = Inr (Results \<lparr> lpPercent = Fin 14, teamTokens = Fin 1600000000,
                         publicTokens = Fin 7000000000,
                         lpTokens = Fin (5872025600000001 / 4194304),
                         lpFunds = Fin 2000, teamFunds = Fin 8000,
                         icoPrice = Fin (3373118916335461 / 2361183241434822606848),
                         lpPrice = Fin (6746237832670921 / 4722366482869645213696),
                         fdvIco = Fin (3926827242057143 / 274877906944),
                         fdvLp = Fin (7853654484114285 / 549755813888),
                         fdvMultiple = Fin (9007199254740991 / 9007199254740992) \<rparr>)
   \<and> flt (Fin (7853654484114285 / 549755813888)) (Fin (3926827242057143 / 274877906944))"
proof -
  have v: "validate_allocation (Fin 16) (Fin 70) = (True, Fin 14, '''')"
    by code_simp
  have g: "fgt (Fin 70) lit_0_1"
    by code_simp
  have f: "fgt (Fin 10000) (Fin 0)"
    by (simp add: fgt_def)
  have p: "app_page (Fin 16) (Fin 10000) (Fin 70)
       = Inr (Results \<lparr> lpPercent = Fin 14, teamTokens = Fin 1600000000,
                         publicTokens = Fin 7000000000,
                         lpTokens = Fin (5872025600000001 / 4194304),
                         lpFunds = Fin 2000, teamFunds = Fin 8000,
                         icoPrice = Fin (3373118916335461 / 2361183241434822606848),
                         lpPrice = Fin (6746237832670921 / 4722366482869645213696),
                         fdvIco = Fin (3926827242057143 / 274877906944),
                         fdvLp = Fin (7853654484114285 / 549755813888),
                         fdvMultiple = Fin (9007199254740991 / 9007199254740992) \<rparr>)"
    by code_simp
  have l: "flt (Fin (7853654484114285 / 549755813888)) (Fin (3926827242057143 / 274877906944))"
    by simp
  from v g f p l show ?thesis
    by blast
qed

end
